theory Spec2Isabelle
  imports Main "HOL-Library.Word"
begin

section \<open>The certificate registry contract\<close>

text \<open>
  A shallow embedding of \<^verbatim>\<open>contracts/CertificateVerification.sol\<close> (Solidity 0.8.19) and
  of the verification outcome computed by \<^verbatim>\<open>api/routes/certificates.js\<close>.

  The vocabulary of the specification maps onto the contract as follows:
  \<^item> \<open>records\<close> is \<open>certificates\<close>, \<open>hashIndex\<close> is \<open>hashToCertificateId\<close>,
    \<open>nextId\<close> is \<open>nextCertificateId\<close>, \<open>ownerIdentity\<close> is \<open>owner\<close>;
  \<^item> \<open>issue\<close>, \<open>revoke\<close>, \<open>lookupByHash\<close>, \<open>lookupById\<close>, \<open>getTotal\<close> are
    \<open>issueCertificate\<close>, \<open>revokeCertificate\<close>, \<open>verifyCertificateByHash\<close>,
    \<open>verifyCertificateById\<close>, \<open>getTotalCertificates\<close>;
  \<^item> a Solidity mapping is total: a key never written reads as the zero value, so
    "the hash is absent from \<open>hashIndex\<close>" is \<open>hashToCertificateId s h = 0\<close>.
\<close>

subsection \<open>Data\<close>

type_synonym uint256 = "256 word"
type_synonym address = "160 word"

record Certificate =
  participantName :: string
  eventName :: string
  certificateHash :: string
  timestamp :: uint256
  isValid :: bool

text \<open>The zero value of the struct, read from a mapping slot that was never written.\<close>

definition zero_Certificate :: Certificate where
  "zero_Certificate =
     \<lparr>participantName = [], eventName = [], certificateHash = [], timestamp = 0, isValid = False\<rparr>"

record contract_state =
  certificates :: "uint256 \<Rightarrow> Certificate"
  hashToCertificateId :: "string \<Rightarrow> uint256"
  nextCertificateId :: uint256
  owner :: address

text \<open>
  A failed \<^verbatim>\<open>require(c, msg)\<close> reverts with \<open>Error msg\<close>; checked arithmetic of
  Solidity 0.8 reverts with \<open>Panic 0x11\<close> on overflow and underflow.
\<close>

datatype error = Error string | Panic nat

definition checked_add :: "uint256 \<Rightarrow> uint256 \<Rightarrow> error + uint256" where
  "checked_add a b = (if unat a + unat b < 2 ^ 256 then Inr (a + b) else Inl (Panic 17))"

definition checked_sub :: "uint256 \<Rightarrow> uint256 \<Rightarrow> error + uint256" where
  "checked_sub a b = (if b \<le> a then Inr (a - b) else Inl (Panic 17))"

subsection \<open>The contract\<close>

text \<open>The state after deployment by \<open>sender\<close>: the field initialisers and the constructor.\<close>

definition constructor :: "address \<Rightarrow> contract_state" where
  "constructor sender =
     \<lparr>certificates = (\<lambda>_. zero_Certificate),
      hashToCertificateId = (\<lambda>_. 0),
      nextCertificateId = 1,
      owner = sender\<rparr>"

text \<open>
  \<open>issueCertificate sender now p e h s\<close>: \<open>sender\<close> is \<^verbatim>\<open>msg.sender\<close> and \<open>now\<close> is
  \<^verbatim>\<open>block.timestamp\<close>. The result is the revert reason, or the returned id with the
  storage after the call. The first test is the modifier \<^verbatim>\<open>onlyOwner\<close>. The increment
  \<^verbatim>\<open>nextCertificateId++\<close> comes after the two writes, as in the source; when it
  overflows the whole call reverts. The events \<^verbatim>\<open>CertificateIssued\<close> and
  \<^verbatim>\<open>CertificateRevoked\<close> are log entries, not storage, and no function reads them:
  they are not part of the state.
\<close>

definition issueCertificate ::
  "address \<Rightarrow> uint256 \<Rightarrow> string \<Rightarrow> string \<Rightarrow> string \<Rightarrow> contract_state
     \<Rightarrow> error + (uint256 \<times> contract_state)" where
  "issueCertificate sender now p e h s =
     (if sender \<noteq> owner s then Inl (Error ''Only owner can call this function'')
      else if \<not> length p > 0 then Inl (Error ''Participant name cannot be empty'')
      else if \<not> length e > 0 then Inl (Error ''Event name cannot be empty'')
      else if \<not> length h > 0 then Inl (Error ''Certificate hash cannot be empty'')
      else if hashToCertificateId s h \<noteq> 0
        then Inl (Error ''Certificate with this hash already exists'')
      else
        let certificateId = nextCertificateId s;
            s1 = s\<lparr>certificates := (certificates s)(certificateId :=
                   \<lparr>participantName = p, eventName = e, certificateHash = h,
                    timestamp = now, isValid = True\<rparr>)\<rparr>;
            s2 = s1\<lparr>hashToCertificateId := (hashToCertificateId s1)(h := certificateId)\<rparr>
        in case checked_add (nextCertificateId s2) 1 of
             Inl err \<Rightarrow> Inl err
           | Inr n \<Rightarrow> Inr (certificateId, s2\<lparr>nextCertificateId := n\<rparr>))"

text \<open>The two views return their tuples; neither contains a statement that can revert.\<close>

definition verifyCertificateByHash ::
  "string \<Rightarrow> contract_state \<Rightarrow> error + (bool \<times> uint256 \<times> string \<times> string \<times> uint256 \<times> bool)" where
  "verifyCertificateByHash h s =
     (let certificateId = hashToCertificateId s h in
      if certificateId = 0 then Inr (False, 0, [], [], 0, False)
      else
        let cert = certificates s certificateId in
        Inr (True, certificateId, participantName cert, eventName cert, timestamp cert,
             isValid cert))"

definition verifyCertificateById ::
  "uint256 \<Rightarrow> contract_state \<Rightarrow> error + (bool \<times> string \<times> string \<times> string \<times> uint256 \<times> bool)" where
  "verifyCertificateById i s =
     (if i = 0 \<or> i \<ge> nextCertificateId s then Inr (False, [], [], [], 0, False)
      else
        let cert = certificates s i in
        Inr (True, participantName cert, eventName cert, certificateHash cert, timestamp cert,
             isValid cert))"

definition revokeCertificate :: "address \<Rightarrow> uint256 \<Rightarrow> contract_state \<Rightarrow> error + contract_state" where
  "revokeCertificate sender i s =
     (if sender \<noteq> owner s then Inl (Error ''Only owner can call this function'')
      else if \<not> (i > 0 \<and> i < nextCertificateId s) then Inl (Error ''Invalid certificate ID'')
      else if \<not> isValid (certificates s i) then Inl (Error ''Certificate is already revoked'')
      else Inr (s\<lparr>certificates := (certificates s)(i := (certificates s i)\<lparr>isValid := False\<rparr>)\<rparr>))"

definition getTotalCertificates :: "contract_state \<Rightarrow> error + uint256" where
  "getTotalCertificates s = checked_sub (nextCertificateId s) 1"

subsection \<open>Transactions\<close>

text \<open>
  The two state-changing entry points as transactions. A transaction that reverts leaves
  the storage as it was before the call.
\<close>

datatype call =
  IssueCertificate address uint256 string string string
| RevokeCertificate address uint256

definition transact :: "contract_state \<Rightarrow> call \<Rightarrow> contract_state" where
  "transact s c =
     (case c of
        IssueCertificate sender now p e h \<Rightarrow>
          (case issueCertificate sender now p e h s of Inl err \<Rightarrow> s | Inr (i, s') \<Rightarrow> s')
      | RevokeCertificate sender i \<Rightarrow>
          (case revokeCertificate sender i s of Inl err \<Rightarrow> s | Inr s' \<Rightarrow> s'))"

definition run :: "contract_state \<Rightarrow> call list \<Rightarrow> contract_state" where
  "run s cs = foldl transact s cs"

text \<open>
  The successful issuances of a sequence of transactions, in order: the id each returned
  and the hash it registered.
\<close>

definition issued_by :: "contract_state \<Rightarrow> call \<Rightarrow> (uint256 \<times> string) list" where
  "issued_by s c =
     (case c of
        IssueCertificate sender now p e h \<Rightarrow>
          (case issueCertificate sender now p e h s of Inl err \<Rightarrow> [] | Inr (i, s') \<Rightarrow> [(i, h)])
      | RevokeCertificate sender i \<Rightarrow> [])"

fun issued :: "contract_state \<Rightarrow> call list \<Rightarrow> (uint256 \<times> string) list" where
  "issued s [] = []"
| "issued s (c # cs) = issued_by s c @ issued (transact s c) cs"

subsection \<open>The verification service of the API\<close>

text \<open>
  \<^verbatim>\<open>BlockchainService.verifyCertificateByHash\<close> calls the contract's view through the
  \<^verbatim>\<open>ethers\<close> library inside a \<^verbatim>\<open>try\<close> block and builds its result there; whatever the
  block throws is caught and turned into \<^verbatim>\<open>success: false\<close>. Besides a failed call, two
  expressions of the block can throw.

  Reading \<^verbatim>\<open>result.participantName\<close> and \<^verbatim>\<open>result.eventName\<close> throws when the bytes
  stored in the contract are not well-formed UTF-8: the library decodes an ABI string
  with its \<^verbatim>\<open>toUtf8String\<close>, which walks the bytes as below and raises an error on an
  unexpected continuation byte, a bad prefix, an overrun, a missing continuation byte, a
  code point above \<^verbatim>\<open>0x10ffff\<close>, a UTF-16 surrogate and an overlong encoding.
\<close>

definition extraLength :: "nat \<Rightarrow> nat" where
  "extraLength c =
     (if 192 \<le> c \<and> c < 224 then 1
      else if 224 \<le> c \<and> c < 240 then 2
      else if 240 \<le> c \<and> c < 248 then 3
      else 0)"

definition overlongMask :: "nat \<Rightarrow> nat" where
  "overlongMask n = (if n = 1 then 127 else if n = 2 then 2047 else 65535)"

definition is_continuation :: "nat \<Rightarrow> bool" where
  "is_continuation nextChar \<longleftrightarrow> 128 \<le> nextChar \<and> nextChar < 192"

definition codePoint :: "nat \<Rightarrow> nat \<Rightarrow> nat list \<Rightarrow> nat" where
  "codePoint c n bytes =
     foldl (\<lambda>res nextChar. res * 64 + nextChar mod 64) (c mod 2 ^ (8 - n - 1)) bytes"

function utf8_decodable :: "nat list \<Rightarrow> bool" where
  "utf8_decodable [] = True"
| "utf8_decodable (c # bytes) =
     (if c < 128 then utf8_decodable bytes
      else if extraLength c = 0 then False
      else if length bytes < extraLength c then False
      else if \<not> list_all is_continuation (take (extraLength c) bytes) then False
      else if codePoint c (extraLength c) (take (extraLength c) bytes) > 1114111 then False
      else if 55296 \<le> codePoint c (extraLength c) (take (extraLength c) bytes)
              \<and> codePoint c (extraLength c) (take (extraLength c) bytes) \<le> 57343 then False
      else if codePoint c (extraLength c) (take (extraLength c) bytes)
              \<le> overlongMask (extraLength c) then False
      else utf8_decodable (drop (extraLength c) bytes))"
  by pat_completeness auto
termination
  by (relation "measure length") auto

definition toUtf8String_ok :: "string \<Rightarrow> bool" where
  "toUtf8String_ok str = utf8_decodable (map of_char str)"

text \<open>
  When the certificate exists the block evaluates
  \<^verbatim>\<open>new Date(Number(result.timestamp) * 1000).toISOString()\<close>, which throws a
  \<^verbatim>\<open>RangeError\<close> when the time value is outside the range of a JavaScript date,
  \<^verbatim>\<open>8.64e15\<close> milliseconds. Up to that bound the conversion and the product are exact,
  and above it they stay above it, so the test is one on the integer.
\<close>

definition toISOString_ok :: "uint256 \<Rightarrow> bool" where
  "toISOString_ok t \<longleftrightarrow> unat t * 1000 \<le> 8640000000000000"

text \<open>
  The result of the service: the exception caught, or the fields of \<^verbatim>\<open>success: true\<close>
  (the id and the timestamp are \<^verbatim>\<open>null\<close> when the certificate does not exist; the
  timestamp stands for its ISO text). The hash is the UTF-8 encoding of the route's
  parameter.
\<close>

datatype service_error = Call_Failed error | Decoding_Failed | Invalid_Time

definition service_verifyCertificateByHash ::
  "string \<Rightarrow> contract_state
     \<Rightarrow> service_error + (bool \<times> uint256 option \<times> string \<times> string \<times> uint256 option \<times> bool)" where
  "service_verifyCertificateByHash h s =
     (case verifyCertificateByHash h s of
        Inl err \<Rightarrow> Inl (Call_Failed err)
      | Inr (exists, certificateId, p, e, t, valid) \<Rightarrow>
          if \<not> toUtf8String_ok p then Inl Decoding_Failed
          else if \<not> toUtf8String_ok e then Inl Decoding_Failed
          else if exists \<and> \<not> toISOString_ok t then Inl Invalid_Time
          else Inr (exists, if exists then Some certificateId else None, p, e,
                    if exists then Some t else None, valid))"

text \<open>
  From that result the handler of \<^verbatim>\<open>GET /api/certificates/verify/:hash\<close> computes its
  answer: \<^verbatim>\<open>verified\<close> and one of three messages when the service succeeded, status 500
  when it did not. (The handler first rejects an empty \<^verbatim>\<open>:hash\<close> with status 400; the
  router matches the route only with a non-empty parameter, so that test belongs to the
  HTTP layer.)
\<close>

datatype verify_response = Verify_Ok bool string | Verify_Failed

definition verify_message :: "bool \<Rightarrow> bool \<Rightarrow> string" where
  "verify_message exists valid =
     (if exists
      then (if valid then ''Certificate is valid and verified''
            else ''Certificate exists but has been revoked'')
      else ''Certificate not found'')"

definition verify_by_hash_response :: "string \<Rightarrow> contract_state \<Rightarrow> verify_response" where
  "verify_by_hash_response h s =
     (case service_verifyCertificateByHash h s of
        Inr (exists, certificateId, p, e, t, valid) \<Rightarrow> Verify_Ok exists (verify_message exists valid)
      | Inl err \<Rightarrow> Verify_Failed)"

subsection \<open>The invariant of the registry\<close>

text \<open>
  The counter is never 0, the empty hash is never registered, every index entry points
  below the counter, and the index and the records agree in both directions.
\<close>

definition registry_inv :: "contract_state \<Rightarrow> bool" where
  "registry_inv s \<longleftrightarrow>
     nextCertificateId s \<noteq> 0 \<and>
     hashToCertificateId s [] = 0 \<and>
     (\<forall>h. hashToCertificateId s h < nextCertificateId s) \<and>
     (\<forall>i. 0 < i \<and> i < nextCertificateId s \<longrightarrow>
          hashToCertificateId s (certificateHash (certificates s i)) = i) \<and>
     (\<forall>h. hashToCertificateId s h \<noteq> 0 \<longrightarrow>
          certificateHash (certificates s (hashToCertificateId s h)) = h)"

subsection \<open>Observing a record along a sequence of transactions\<close>

text \<open>The number of transactions of a sequence that change \<open>isValid\<close> of record \<open>i\<close>.\<close>

fun flips :: "uint256 \<Rightarrow> contract_state \<Rightarrow> call list \<Rightarrow> nat" where
  "flips i s [] = 0"
| "flips i s (c # cs) =
     (if isValid (certificates (transact s c) i) = isValid (certificates s i) then 0 else 1)
     + flips i (transact s c) cs"

subsection \<open>The scenario of the specification\<close>

text \<open>
  The deployer is address 0. Alice's certificate is issued at time 5; Bob's request
  reuses Alice's hash; Carol's has a hash of its own. \<open>registry1\<close> is the registry
  after Alice's issuance, \<open>registry2\<close> after its revocation.
\<close>

definition alice :: call where
  "alice = IssueCertificate 0 5 ''Alice'' ''Contest2024'' ''aaa111''"

definition bob :: call where
  "bob = IssueCertificate 0 6 ''Bob'' ''Contest2024'' ''aaa111''"

definition carol :: call where
  "carol = IssueCertificate 0 7 ''Carol'' ''Contest2024'' ''ccc333''"

definition registry1 :: contract_state where
  "registry1 = run (constructor 0) [alice]"

definition registry2 :: contract_state where
  "registry2 = run (constructor 0) [alice, RevokeCertificate 0 1]"

subsection \<open>Records that the service cannot convert\<close>

text \<open>
  Two issuances by the deployer, each made directly on a fresh contract: one whose
  participant name is the single byte \<^verbatim>\<open>0xff\<close>, which is not UTF-8, and one in a block
  whose timestamp is one second beyond the range of a JavaScript date.
\<close>

definition undecodable :: call where
  "undecodable = IssueCertificate 0 5 [CHR 0xFF] ''Contest2024'' ''bad000''"

definition far_future :: call where
  "far_future = IssueCertificate 0 8640000000001 ''Zoe'' ''Contest2024'' ''far000''"

section \<open>Basic facts\<close>

subsection \<open>Checked arithmetic and the two transactions\<close>

lemma unat_max_uint256: "unat (n :: uint256) + 1 < 2 ^ 256 \<longleftrightarrow> n \<noteq> - 1"
proof -
  have "unat n < 2 ^ 256" using unsigned_less [of n, where ?'a = nat] by simp
  moreover have "n = - 1 \<longleftrightarrow> unat n = unat (- 1 :: uint256)"
    by (simp only: word_unat_eq_iff)
  moreover have "unat (- 1 :: uint256) = 2 ^ 256 - 1"
    by (simp add: unsigned_minus_1_eq_mask mask_eq_exp_minus_1)
  ultimately show ?thesis by auto
qed

lemma checked_add_1: "checked_add n 1 = (if n = - 1 then Inl (Panic 17) else Inr (n + 1))"
  using unat_max_uint256 [of n] by (simp add: checked_add_def)

lemma checked_sub_1: "checked_sub n 1 = (if n = 0 then Inl (Panic 17) else Inr (n - 1))"
  by (simp add: checked_sub_def word_le_sub1)

lemma unat_plus_1: "(n :: uint256) \<noteq> - 1 \<Longrightarrow> unat (n + 1) = Suc (unat n)"
  by (simp add: add.commute add_eq_0_iff unatSuc)

lemma less_plus_1: "(n :: uint256) \<noteq> - 1 \<Longrightarrow> i < n + 1 \<longleftrightarrow> i < n \<or> i = n"
  by (meson inc_less_eq_iff not_less_iff_gr_or_eq verit_comp_simplify1(3))

lemma issueCertificate_Inr:
  "issueCertificate a t p e h s = Inr r \<longleftrightarrow>
     a = owner s \<and> p \<noteq> [] \<and> e \<noteq> [] \<and> h \<noteq> [] \<and> hashToCertificateId s h = 0 \<and>
     nextCertificateId s \<noteq> - 1 \<and>
     r = (nextCertificateId s,
          s\<lparr>certificates := (certificates s)(nextCertificateId s :=
               \<lparr>participantName = p, eventName = e, certificateHash = h,
                timestamp = t, isValid = True\<rparr>),
            hashToCertificateId := (hashToCertificateId s)(h := nextCertificateId s),
            nextCertificateId := nextCertificateId s + 1\<rparr>)"
  by (auto simp: issueCertificate_def checked_add_1 Let_def)

lemma revokeCertificate_Inr:
  "revokeCertificate a i s = Inr s' \<longleftrightarrow>
     a = owner s \<and> 0 < i \<and> i < nextCertificateId s \<and> isValid (certificates s i) \<and>
     s' = s\<lparr>certificates := (certificates s)(i := (certificates s i)\<lparr>isValid := False\<rparr>)\<rparr>"
  by (auto simp: revokeCertificate_def)

lemma registry_inv_constructor: "registry_inv (constructor d)"
  by (simp add: registry_inv_def constructor_def)

lemma registry_inv_issue:
  assumes "registry_inv s" and "issueCertificate a t p e h s = Inr (i, s')"
  shows "registry_inv s'"
proof -
  let ?n = "nextCertificateId s"
  from assms(2) have ok: "hashToCertificateId s h = 0" "?n \<noteq> - 1" "h \<noteq> []"
    and s': "s' = s\<lparr>certificates := (certificates s)(?n :=
               \<lparr>participantName = p, eventName = e, certificateHash = h,
                timestamp = t, isValid = True\<rparr>),
            hashToCertificateId := (hashToCertificateId s)(h := ?n),
            nextCertificateId := ?n + 1\<rparr>"
    by (simp_all add: issueCertificate_Inr)
  from assms(1) have n0: "?n \<noteq> 0" and e0: "hashToCertificateId s [] = 0"
    and below: "\<And>k. hashToCertificateId s k < ?n"
    and fwd: "\<And>j. 0 < j \<Longrightarrow> j < ?n \<Longrightarrow> hashToCertificateId s (certificateHash (certificates s j)) = j"
    and bwd: "\<And>k. hashToCertificateId s k \<noteq> 0 \<Longrightarrow> certificateHash (certificates s (hashToCertificateId s k)) = k"
    by (simp_all add: registry_inv_def)
  have lt: "\<And>j. j < ?n + 1 \<longleftrightarrow> j < ?n \<or> j = ?n"
    using ok(2) by (rule less_plus_1)
  have c1: "nextCertificateId s' \<noteq> 0"
    using ok(2) by (simp add: s' eq_neg_iff_add_eq_0 [symmetric])
  have c2: "hashToCertificateId s' k < nextCertificateId s'" for k
    using below [of k] by (simp add: s' lt)
  have c3: "hashToCertificateId s' (certificateHash (certificates s' j)) = j"
    if "0 < j" "j < nextCertificateId s'" for j
  proof (cases "j = ?n")
    case True
    then show ?thesis by (simp add: s')
  next
    case False
    with that have "j < ?n" by (simp add: s' lt)
    with that(1) have eq: "hashToCertificateId s (certificateHash (certificates s j)) = j"
      by (rule fwd)
    with that(1) ok(1) have "certificateHash (certificates s j) \<noteq> h" by auto
    with eq False show ?thesis by (simp add: s')
  qed
  have c4: "certificateHash (certificates s' (hashToCertificateId s' k)) = k"
    if "hashToCertificateId s' k \<noteq> 0" for k
  proof (cases "k = h")
    case True
    then show ?thesis by (simp add: s')
  next
    case False
    with that have nz: "hashToCertificateId s k \<noteq> 0" by (simp add: s')
    moreover have "hashToCertificateId s k \<noteq> ?n" using below [of k] by auto
    ultimately show ?thesis using False bwd [OF nz] by (simp add: s')
  qed
  have c0: "hashToCertificateId s' [] = 0"
    using e0 ok(3) by (simp add: s')
  show ?thesis
    unfolding registry_inv_def using c0 c1 c2 c3 c4 by blast
qed

lemma registry_inv_revoke:
  assumes "registry_inv s" and "revokeCertificate a i s = Inr s'"
  shows "registry_inv s'"
  using assms by (auto simp: revokeCertificate_Inr registry_inv_def)

lemma registry_inv_transact: "registry_inv s \<Longrightarrow> registry_inv (transact s c)"
  by (auto simp: transact_def split: call.splits sum.splits
      intro: registry_inv_issue registry_inv_revoke)

lemma run_Nil: "run s [] = s"
  by (simp add: run_def)

lemma run_Cons: "run s (c # cs) = run (transact s c) cs"
  by (simp add: run_def)

lemma registry_inv_run: "registry_inv s \<Longrightarrow> registry_inv (run s cs)"
  by (induction cs arbitrary: s) (simp_all add: run_Nil run_Cons registry_inv_transact)

lemma registry_inv_reachable: "registry_inv (run (constructor d) cs)"
  by (simp add: registry_inv_run registry_inv_constructor)

subsection \<open>Sequences of transactions\<close>

lemma transact_cases:
  "issued_by s c = [] \<and> nextCertificateId (transact s c) = nextCertificateId s \<or>
   (\<exists>h. issued_by s c = [(nextCertificateId s, h)] \<and> nextCertificateId s \<noteq> - 1 \<and>
        nextCertificateId (transact s c) = nextCertificateId s + 1)"
proof (cases c)
  case (IssueCertificate a t p e h)
  show ?thesis
  proof (cases "issueCertificate a t p e h s")
    case (Inl err)
    with IssueCertificate show ?thesis by (simp add: issued_by_def transact_def)
  next
    case (Inr r)
    then have "nextCertificateId s \<noteq> - 1" and "fst r = nextCertificateId s"
      and "nextCertificateId (snd r) = nextCertificateId s + 1"
      by (simp_all add: issueCertificate_Inr)
    with IssueCertificate Inr show ?thesis
      by (cases r) (simp add: issued_by_def transact_def)
  qed
next
  case (RevokeCertificate a i)
  show ?thesis
  proof (cases "revokeCertificate a i s")
    case (Inl err)
    with RevokeCertificate show ?thesis by (simp add: issued_by_def transact_def)
  next
    case (Inr s')
    then have "nextCertificateId s' = nextCertificateId s"
      by (simp add: revokeCertificate_Inr)
    with RevokeCertificate Inr show ?thesis by (simp add: issued_by_def transact_def)
  qed
qed

lemma unat_nextCertificateId_transact:
  "unat (nextCertificateId (transact s c)) = unat (nextCertificateId s) + length (issued_by s c)"
  using transact_cases [of s c] by (auto simp: unat_plus_1)

lemma unat_nextCertificateId_run:
  "unat (nextCertificateId (run s cs)) = unat (nextCertificateId s) + length (issued s cs)"
  by (induction cs arbitrary: s) (simp_all add: run_Nil run_Cons unat_nextCertificateId_transact)

lemma issued_ids_sequential:
  "map (unat \<circ> fst) (issued s cs) =
     [unat (nextCertificateId s) ..< unat (nextCertificateId s) + length (issued s cs)]"
proof (induction cs arbitrary: s)
  case Nil
  show ?case by simp
next
  case (Cons c cs)
  from transact_cases [of s c] show ?case
  proof
    assume "issued_by s c = [] \<and> nextCertificateId (transact s c) = nextCertificateId s"
    then show ?thesis using Cons.IH [of "transact s c"] by simp
  next
    assume "\<exists>h. issued_by s c = [(nextCertificateId s, h)] \<and> nextCertificateId s \<noteq> - 1 \<and>
        nextCertificateId (transact s c) = nextCertificateId s + 1"
    then obtain h where h: "issued_by s c = [(nextCertificateId s, h)]"
      "nextCertificateId s \<noteq> - 1" "nextCertificateId (transact s c) = nextCertificateId s + 1"
      by blast
    then show ?thesis
      using Cons.IH [of "transact s c"] by (simp add: unat_plus_1 upt_rec)
  qed
qed

lemma issued_ids_set:
  "fst ` set (issued s cs) = {i. nextCertificateId s \<le> i \<and> i < nextCertificateId (run s cs)}"
proof -
  have "unat ` fst ` set (issued s cs) = set (map (unat \<circ> fst) (issued s cs))"
    by (simp add: image_comp)
  also have "\<dots> = {unat (nextCertificateId s) ..< unat (nextCertificateId (run s cs))}"
    by (simp only: issued_ids_sequential unat_nextCertificateId_run set_upt)
  finally have *: "unat ` fst ` set (issued s cs) =
      {unat (nextCertificateId s) ..< unat (nextCertificateId (run s cs))}" .
  show ?thesis
  proof (rule set_eqI)
    fix i
    have "i \<in> fst ` set (issued s cs) \<longleftrightarrow> unat i \<in> unat ` fst ` set (issued s cs)"
      by (simp add: inj_image_mem_iff)
    then show "i \<in> fst ` set (issued s cs) \<longleftrightarrow>
        i \<in> {i. nextCertificateId s \<le> i \<and> i < nextCertificateId (run s cs)}"
      by (simp add: * word_le_nat_alt word_less_nat_alt)
  qed
qed

lemma issued_ids_distinct: "distinct (map fst (issued s cs))"
proof -
  have "distinct (map (unat \<circ> fst) (issued s cs))"
    by (simp only: issued_ids_sequential distinct_upt)
  then have "distinct (map unat (map fst (issued s cs)))" by simp
  then show ?thesis by (simp only: distinct_map)
qed

lemma word_one_le: "(1 :: uint256) \<le> i \<longleftrightarrow> i \<noteq> 0"
  by (simp add: word_le_nat_alt word_unat_eq_iff Suc_le_eq)

lemma word_one_le': "(1 :: uint256) \<le> i \<longleftrightarrow> 0 < i"
  by (simp add: word_one_le word_gt_0)

lemma nextCertificateId_transact_mono: "i < nextCertificateId s \<Longrightarrow> i < nextCertificateId (transact s c)"
  using transact_cases [of s c] by (auto simp: less_plus_1)

lemma transact_outcomes:
  obtains (failed) "transact s c = s" "issued_by s c = []"
  | (issued) a t p e h where "c = IssueCertificate a t p e h"
      and "issueCertificate a t p e h s = Inr (nextCertificateId s, transact s c)"
  | (revoked) a i where "c = RevokeCertificate a i"
      and "revokeCertificate a i s = Inr (transact s c)"
proof (cases c)
  case (IssueCertificate a t p e h)
  show ?thesis
  proof (cases "issueCertificate a t p e h s")
    case (Inl err)
    with IssueCertificate show ?thesis by (intro failed) (simp_all add: transact_def issued_by_def)
  next
    case (Inr r)
    moreover from Inr have "fst r = nextCertificateId s" by (simp add: issueCertificate_Inr)
    ultimately have "issueCertificate a t p e h s = Inr (nextCertificateId s, transact s c)"
      using IssueCertificate by (cases r) (simp add: transact_def)
    with IssueCertificate show ?thesis by (rule issued)
  qed
next
  case (RevokeCertificate a i)
  show ?thesis
  proof (cases "revokeCertificate a i s")
    case (Inl err)
    with RevokeCertificate show ?thesis by (intro failed) (simp_all add: transact_def issued_by_def)
  next
    case (Inr s')
    with RevokeCertificate have "revokeCertificate a i s = Inr (transact s c)"
      by (simp add: transact_def)
    with RevokeCertificate show ?thesis by (rule revoked)
  qed
qed

lemma record_kept_transact:
  assumes "i < nextCertificateId s"
  shows "participantName (certificates (transact s c) i) = participantName (certificates s i) \<and>
         eventName (certificates (transact s c) i) = eventName (certificates s i) \<and>
         certificateHash (certificates (transact s c) i) = certificateHash (certificates s i) \<and>
         timestamp (certificates (transact s c) i) = timestamp (certificates s i) \<and>
         (isValid (certificates (transact s c) i) \<longrightarrow> isValid (certificates s i))"
proof (cases s c rule: transact_outcomes)
  case failed
  then show ?thesis by simp
next
  case (issued a t p e h)
  from issued(2) have "certificates (transact s c) i = certificates s i"
    using assms by (auto simp: issueCertificate_Inr)
  then show ?thesis by simp
next
  case (revoked a j)
  from revoked(2) have "transact s c =
      s\<lparr>certificates := (certificates s)(j := (certificates s j)\<lparr>isValid := False\<rparr>)\<rparr>"
    by (simp add: revokeCertificate_Inr)
  then show ?thesis by simp
qed

lemma record_kept_run:
  assumes "i < nextCertificateId s"
  shows "i < nextCertificateId (run s cs) \<and>
         participantName (certificates (run s cs) i) = participantName (certificates s i) \<and>
         eventName (certificates (run s cs) i) = eventName (certificates s i) \<and>
         certificateHash (certificates (run s cs) i) = certificateHash (certificates s i) \<and>
         timestamp (certificates (run s cs) i) = timestamp (certificates s i) \<and>
         (isValid (certificates (run s cs) i) \<longrightarrow> isValid (certificates s i))"
  using assms
proof (induction cs arbitrary: s)
  case Nil
  then show ?case by (simp add: run_Nil)
next
  case (Cons c cs)
  from Cons.prems have "i < nextCertificateId (transact s c)"
    by (rule nextCertificateId_transact_mono)
  from Cons.IH [OF this] record_kept_transact [OF Cons.prems, of c]
  show ?case by (simp add: run_Cons)
qed

lemma isValid_cleared_only_by_revoke:
  assumes "isValid (certificates s i)" and "\<not> isValid (certificates (transact s c) i)"
  shows "c = RevokeCertificate (owner s) i \<and>
         revokeCertificate (owner s) i s = Inr (transact s c)"
proof (cases s c rule: transact_outcomes)
  case failed
  with assms show ?thesis by simp
next
  case (issued a t p e h)
  from issued(2) have "certificates (transact s c) =
      (certificates s)(nextCertificateId s :=
         \<lparr>participantName = p, eventName = e, certificateHash = h, timestamp = t, isValid = True\<rparr>)"
    by (simp add: issueCertificate_Inr)
  with assms show ?thesis by (simp split: if_splits)
next
  case (revoked a j)
  from revoked(2) have a: "a = owner s" and "certificates (transact s c) =
      (certificates s)(j := (certificates s j)\<lparr>isValid := False\<rparr>)"
    by (simp_all add: revokeCertificate_Inr)
  with assms have "j = i" by (simp split: if_splits)
  with revoked a show ?thesis by simp
qed

lemma run_owner: "owner (run s cs) = owner s"
proof (induction cs arbitrary: s)
  case Nil
  show ?case by (simp add: run_Nil)
next
  case (Cons c cs)
  have "owner (transact s c) = owner s"
    by (cases s c rule: transact_outcomes)
       (auto simp: issueCertificate_Inr revokeCertificate_Inr)
  with Cons.IH [of "transact s c"] show ?case by (simp add: run_Cons)
qed

text \<open>Simplification rules that evaluate the contract on concrete transactions.\<close>

lemmas contract_eval =
  run_def transact_def issued_by_def issueCertificate_def revokeCertificate_def
  verifyCertificateByHash_def verifyCertificateById_def getTotalCertificates_def
  checked_add_1 checked_sub_1 constructor_def zero_Certificate_def Let_def

lemma revoke_not_issue: "issued_by s (RevokeCertificate a i) = []"
  by (simp add: issued_by_def)

lemma nextCertificateId_revoke:
  "nextCertificateId (transact s (RevokeCertificate a i)) = nextCertificateId s"
  using transact_cases [of s "RevokeCertificate a i"] by (simp add: revoke_not_issue)

lemma unat_minus_1: "(n :: uint256) \<noteq> 0 \<Longrightarrow> unat (n - 1) = unat n - 1"
  by (simp add: unat_minus_one)

lemma flips_run:
  assumes "i < nextCertificateId s"
  shows "flips i s cs = (if isValid (certificates s i) \<and> \<not> isValid (certificates (run s cs) i) then 1 else 0)"
  using assms
proof (induction cs arbitrary: s)
  case Nil
  show ?case by (simp add: run_Nil)
next
  case (Cons c cs)
  let ?s1 = "transact s c"
  from Cons.prems have lt: "i < nextCertificateId ?s1" by (rule nextCertificateId_transact_mono)
  have m1: "isValid (certificates ?s1 i) \<longrightarrow> isValid (certificates s i)"
    using record_kept_transact [OF Cons.prems, of c] by simp
  have m2: "isValid (certificates (run ?s1 cs) i) \<longrightarrow> isValid (certificates ?s1 i)"
    using record_kept_run [OF lt, of cs] by simp
  define A where "A = isValid (certificates s i)"
  define B where "B = isValid (certificates ?s1 i)"
  define C where "C = isValid (certificates (run ?s1 cs) i)"
  have "flips i s (c # cs) = (if B = A then 0 else 1) + flips i ?s1 cs"
    by (simp only: flips.simps A_def B_def)
  also have "flips i ?s1 cs = (if B \<and> \<not> C then 1 else 0)"
    by (simp only: Cons.IH [OF lt] B_def C_def)
  also have "(if B = A then 0 else 1) + (if B \<and> \<not> C then 1 else 0) = (if A \<and> \<not> C then 1 else (0::nat))"
    using m1 m2 unfolding A_def [symmetric] B_def [symmetric] C_def [symmetric]
    by (cases A; cases B; cases C; simp)
  finally show ?case by (simp only: run_Cons A_def C_def)
qed

subsection \<open>The scenario evaluated\<close>

lemma registry1_eq:
  "registry1 =
     \<lparr>certificates = (\<lambda>_. zero_Certificate)(1 :=
        \<lparr>participantName = ''Alice'', eventName = ''Contest2024'', certificateHash = ''aaa111'',
         timestamp = 5, isValid = True\<rparr>),
      hashToCertificateId = (\<lambda>_. 0)(''aaa111'' := 1),
      nextCertificateId = 2,
      owner = 0\<rparr>"
  by (simp add: registry1_def alice_def run_def transact_def issueCertificate_def checked_add_1
      constructor_def Let_def)

lemma registry2_eq:
  "registry2 =
     \<lparr>certificates = (\<lambda>_. zero_Certificate)(1 :=
        \<lparr>participantName = ''Alice'', eventName = ''Contest2024'', certificateHash = ''aaa111'',
         timestamp = 5, isValid = False\<rparr>),
      hashToCertificateId = (\<lambda>_. 0)(''aaa111'' := 1),
      nextCertificateId = 2,
      owner = 0\<rparr>"
proof -
  have "registry2 = transact registry1 (RevokeCertificate 0 1)"
    by (simp add: registry1_def registry2_def run_def)
  then show ?thesis
    by (simp add: registry1_eq transact_def revokeCertificate_def)
qed

lemma registry1_fields:
  "owner registry1 = 0" "nextCertificateId registry1 = 2"
  "certificates registry1 1 = \<lparr>participantName = ''Alice'', eventName = ''Contest2024'',
      certificateHash = ''aaa111'', timestamp = 5, isValid = True\<rparr>"
  "hashToCertificateId registry1 ''aaa111'' = 1"
  by (simp_all add: registry1_eq)

lemma registry2_fields:
  "owner registry2 = 0" "nextCertificateId registry2 = 2"
  "certificates registry2 1 = \<lparr>participantName = ''Alice'', eventName = ''Contest2024'',
      certificateHash = ''aaa111'', timestamp = 5, isValid = False\<rparr>"
  "hashToCertificateId registry2 ''aaa111'' = 1"
  by (simp_all add: registry2_eq)

lemma registry_runs:
  "registry1 = run (constructor 0) [alice]"
  "registry2 = run (constructor 0) [alice, RevokeCertificate 0 1]"
  "transact (constructor 0) alice = registry1"
  "transact registry1 (RevokeCertificate 0 1) = registry2"
  by (simp_all add: registry1_def registry2_def run_def)

lemma issued_alice: "issued (constructor 0) [alice, RevokeCertificate 0 1] = [(1, ''aaa111'')]"
  by (simp add: alice_def contract_eval)

lemma scenario3:
  "issued (constructor 0) [alice, RevokeCertificate 0 1, carol] = [(1, ''aaa111''), (2, ''ccc333'')]"
  "nextCertificateId (run (constructor 0) [alice, RevokeCertificate 0 1, carol]) = 3"
  by (simp_all add: alice_def carol_def contract_eval)

subsection \<open>The hash index only grows\<close>

lemma hash_index_kept_transact:
  assumes "hashToCertificateId s h \<noteq> 0"
  shows "hashToCertificateId (transact s c) h = hashToCertificateId s h"
proof (cases s c rule: transact_outcomes)
  case failed
  then show ?thesis by simp
next
  case (issued a t p e k)
  from issued(2) have "hashToCertificateId s k = 0"
    and "hashToCertificateId (transact s c) = (hashToCertificateId s)(k := nextCertificateId s)"
    by (simp_all add: issueCertificate_Inr)
  with assms show ?thesis by auto
next
  case (revoked a j)
  from revoked(2) have "hashToCertificateId (transact s c) = hashToCertificateId s"
    by (simp add: revokeCertificate_Inr)
  then show ?thesis by simp
qed

lemma hash_index_kept_run:
  "hashToCertificateId s h \<noteq> 0 \<Longrightarrow> hashToCertificateId (run s cs) h = hashToCertificateId s h"
proof (induction cs arbitrary: s)
  case Nil
  show ?case by (simp add: run_Nil)
next
  case (Cons c cs)
  from Cons.prems have "hashToCertificateId (transact s c) h = hashToCertificateId s h"
    by (rule hash_index_kept_transact)
  with Cons.prems Cons.IH [of "transact s c"] show ?case by (simp add: run_Cons)
qed

lemma issued_hashes_fresh:
  assumes "registry_inv s"
  shows "distinct (map snd (issued s cs)) \<and>
         (\<forall>k \<in> snd ` set (issued s cs). hashToCertificateId s k = 0)"
  using assms
proof (induction cs arbitrary: s)
  case Nil
  show ?case by simp
next
  case (Cons c cs)
  let ?s1 = "transact s c"
  from Cons.prems have inv1: "registry_inv ?s1" by (rule registry_inv_transact)
  from Cons.IH [OF inv1] have d: "distinct (map snd (issued ?s1 cs))"
    and f: "\<And>k. k \<in> snd ` set (issued ?s1 cs) \<Longrightarrow> hashToCertificateId ?s1 k = 0"
    by blast+
  show ?case
  proof (cases s c rule: transact_outcomes)
    case failed
    with d f show ?thesis by simp
  next
    case (issued a t p e h)
    from issued(2) have h0: "hashToCertificateId s h = 0"
      and upd: "hashToCertificateId ?s1 = (hashToCertificateId s)(h := nextCertificateId s)"
      by (simp_all add: issueCertificate_Inr)
    from Cons.prems have "nextCertificateId s \<noteq> 0" by (simp add: registry_inv_def)
    with upd have h1: "hashToCertificateId ?s1 h \<noteq> 0" by simp
    have by_c: "issued_by s c = [(nextCertificateId s, h)]"
      using issued by (simp add: issued_by_def)
    have later: "k \<noteq> h \<and> hashToCertificateId s k = 0" if "k \<in> snd ` set (issued ?s1 cs)" for k
    proof -
      from f [OF that] have z: "hashToCertificateId ?s1 k = 0" .
      with h1 have "k \<noteq> h" by auto
      with z upd show ?thesis by simp
    qed
    from later have "h \<notin> snd ` set (issued ?s1 cs)" by blast
    with d h0 later show ?thesis by (auto simp: by_c)
  next
    case (revoked a j)
    from revoked(2) have "hashToCertificateId ?s1 = hashToCertificateId s"
      by (simp add: revokeCertificate_Inr)
    moreover have "issued_by s c = []" using revoked(1) by (simp add: issued_by_def)
    ultimately show ?thesis using d f by simp
  qed
qed

subsection \<open>The full counter\<close>

text \<open>
  The counter is a \<^verbatim>\<open>uint256\<close> and its increment is checked: with the counter at
  \<^verbatim>\<open>2^256 - 1\<close> an issuance that passes every \<^verbatim>\<open>require\<close> reverts. Reaching that
  counter takes \<^verbatim>\<open>2^256 - 2\<close> issuances.
\<close>

lemma issueCertificate_counter_full:
  assumes "nextCertificateId s = - 1" and "sender = owner s"
    and "p \<noteq> []" and "e \<noteq> []" and "h \<noteq> []" and "hashToCertificateId s h = 0"
  shows "issueCertificate sender now p e h s = Inl (Panic 17)"
  using assms by (simp add: issueCertificate_def checked_add_1)

subsection \<open>The service evaluated\<close>

lemma toUtf8String_ok_examples:
  "toUtf8String_ok []" "toUtf8String_ok ''Alice''" "toUtf8String_ok ''Zoe''"
  "toUtf8String_ok ''Contest2024''" "\<not> toUtf8String_ok [CHR 0xFF]"
  by (simp_all add: toUtf8String_ok_def extraLength_def)

lemma toISOString_ok_examples:
  "toISOString_ok 0" "toISOString_ok 5" "\<not> toISOString_ok 8640000000001"
  by (simp_all add: toISOString_ok_def)

lemma undecodable_run:
  "hashToCertificateId (run (constructor 0) [undecodable]) ''bad000'' = 1"
  "certificates (run (constructor 0) [undecodable]) 1 =
     \<lparr>participantName = [CHR 0xFF], eventName = ''Contest2024'', certificateHash = ''bad000'',
      timestamp = 5, isValid = True\<rparr>"
  by (simp_all add: undecodable_def contract_eval)

lemma far_future_run:
  "hashToCertificateId (run (constructor 0) [far_future]) ''far000'' = 1"
  "certificates (run (constructor 0) [far_future]) 1 =
     \<lparr>participantName = ''Zoe'', eventName = ''Contest2024'', certificateHash = ''far000'',
      timestamp = 8640000000001, isValid = True\<rparr>"
  by (simp_all add: far_future_def contract_eval)

section \<open>The claims\<close>

subsection \<open>C1: a successful issuance\<close>

text \<open>
  Claim C1. In every state of the registry (a state reached from deployment, where the
  counter \<open>nextCertificateId\<close> has not run through all of \<^verbatim>\<open>uint256\<close>), a call of
  \<open>issueCertificate\<close> by the owner with three non-empty inputs and a hash absent from
  \<open>hashToCertificateId\<close> succeeds and returns \<open>nextCertificateId\<close>. Afterwards the record
  at that id holds exactly the given name, event and hash, with \<open>isValid = true\<close> and the
  block's timestamp; the hash is indexed to the id; the counter is one more than before;
  and \<open>verifyCertificateByHash\<close> of the hash returns that record with the same fields.
\<close>

theorem C1_issue_succeeds:
  assumes "s = run (constructor d) cs" and "nextCertificateId s \<noteq> - 1"
    and "sender = owner s" and "p \<noteq> []" and "e \<noteq> []" and "h \<noteq> []"
    and "hashToCertificateId s h = 0"
  shows "\<exists>s'. issueCertificate sender now p e h s = Inr (nextCertificateId s, s') \<and>
           certificates s' (nextCertificateId s) =
             \<lparr>participantName = p, eventName = e, certificateHash = h,
              timestamp = now, isValid = True\<rparr> \<and>
           hashToCertificateId s' h = nextCertificateId s \<and>
           nextCertificateId s' = nextCertificateId s + 1 \<and>
           unat (nextCertificateId s') = unat (nextCertificateId s) + 1 \<and>
           verifyCertificateByHash h s' = Inr (True, nextCertificateId s, p, e, now, True)"
proof -
  let ?n = "nextCertificateId s"
  let ?s' = "s\<lparr>certificates := (certificates s)(?n :=
               \<lparr>participantName = p, eventName = e, certificateHash = h,
                timestamp = now, isValid = True\<rparr>),
            hashToCertificateId := (hashToCertificateId s)(h := ?n),
            nextCertificateId := ?n + 1\<rparr>"
  have "registry_inv s" unfolding assms(1) by (rule registry_inv_reachable)
  then have n0: "?n \<noteq> 0" by (simp add: registry_inv_def)
  have r: "issueCertificate sender now p e h s = Inr (?n, ?s')"
    using assms(2-7) by (simp add: issueCertificate_Inr)
  have c: "certificates ?s' ?n = \<lparr>participantName = p, eventName = e, certificateHash = h,
              timestamp = now, isValid = True\<rparr>" by simp
  have x: "hashToCertificateId ?s' h = ?n" by simp
  have n: "nextCertificateId ?s' = ?n + 1" by simp
  have u: "unat (nextCertificateId ?s') = unat ?n + 1"
    using assms(2) by (simp add: unat_plus_1)
  have v: "verifyCertificateByHash h ?s' = Inr (True, ?n, p, e, now, True)"
    using n0 by (simp add: verifyCertificateByHash_def)
  show ?thesis by (rule exI [of _ ?s'], intro conjI) (rule r c x n u v)+
qed

theorem C1_issue_succeeds_witness:
  "registry1 = run (constructor 0) [alice] \<and> nextCertificateId registry1 \<noteq> - 1 \<and>
   0 = owner registry1 \<and> hashToCertificateId registry1 ''ccc333'' = 0 \<and>
   (\<exists>s'. issueCertificate 0 7 ''Carol'' ''Contest2024'' ''ccc333'' registry1 = Inr (2, s') \<and>
      certificates s' 2 =
        \<lparr>participantName = ''Carol'', eventName = ''Contest2024'', certificateHash = ''ccc333'',
         timestamp = 7, isValid = True\<rparr> \<and>
      hashToCertificateId s' ''ccc333'' = 2 \<and>
      nextCertificateId s' = 3 \<and> unat (nextCertificateId s') = 3 \<and>
      verifyCertificateByHash ''ccc333'' s' = Inr (True, 2, ''Carol'', ''Contest2024'', 7, True))"
proof -
  have h: "nextCertificateId registry1 \<noteq> - 1" "0 = owner registry1"
    "hashToCertificateId registry1 ''ccc333'' = 0"
    by (simp_all add: registry1_eq)
  from C1_issue_succeeds [OF registry_runs(1) h(1) h(2) _ _ _ h(3), of "''Carol''" "''Contest2024''" 7]
  have "\<exists>s'. issueCertificate 0 7 ''Carol'' ''Contest2024'' ''ccc333'' registry1 = Inr (2, s') \<and>
      certificates s' 2 =
        \<lparr>participantName = ''Carol'', eventName = ''Contest2024'', certificateHash = ''ccc333'',
         timestamp = 7, isValid = True\<rparr> \<and>
      hashToCertificateId s' ''ccc333'' = 2 \<and>
      nextCertificateId s' = 3 \<and> unat (nextCertificateId s') = 3 \<and>
      verifyCertificateByHash ''ccc333'' s' = Inr (True, 2, ''Carol'', ''Contest2024'', 7, True)"
    by (simp add: registry1_fields)
  with registry_runs(1) h show ?thesis by (intro conjI)
qed

subsection \<open>C2: failed issuances\<close>

text \<open>
  Claim C2. Behind the access guard, \<open>issueCertificate\<close> makes its checks in the order
  of the claim. It fails with the validation message of the first empty input whenever
  the name, the event or the hash is empty. Whenever the hash is already in
  \<open>hashToCertificateId\<close> it fails, and with "Certificate with this hash already exists"
  once the three inputs are non-empty. A failed issuance leaves the storage as it was.
  In particular, when an issuance with hash \<open>h\<close> has succeeded, a second issuance with
  the same \<open>h\<close> fails with the duplicate message and changes neither the storage nor
  \<open>getTotalCertificates\<close>.
\<close>

theorem C2_issue_failures:
  assumes "s = run (constructor d) cs" and "sender = owner s"
  shows "(p = [] \<or> e = [] \<or> h = [] \<longrightarrow>
            issueCertificate sender now p e h s =
              Inl (Error (if p = [] then ''Participant name cannot be empty''
                          else if e = [] then ''Event name cannot be empty''
                          else ''Certificate hash cannot be empty''))) \<and>
         (p \<noteq> [] \<and> e \<noteq> [] \<and> h \<noteq> [] \<and> hashToCertificateId s h \<noteq> 0 \<longrightarrow>
            issueCertificate sender now p e h s =
              Inl (Error ''Certificate with this hash already exists'')) \<and>
         (hashToCertificateId s h \<noteq> 0 \<longrightarrow>
            (\<exists>err. issueCertificate sender now p e h s = Inl err)) \<and>
         ((\<exists>err. issueCertificate sender now p e h s = Inl err) \<longrightarrow>
            transact s (IssueCertificate sender now p e h) = s) \<and>
         ((\<exists>r. issueCertificate sender now p e h s = Inr r) \<and> p' \<noteq> [] \<and> e' \<noteq> [] \<longrightarrow>
            issueCertificate sender now' p' e' h (transact s (IssueCertificate sender now p e h))
              = Inl (Error ''Certificate with this hash already exists'') \<and>
            transact (transact s (IssueCertificate sender now p e h))
                (IssueCertificate sender now' p' e' h)
              = transact s (IssueCertificate sender now p e h) \<and>
            getTotalCertificates
                (transact (transact s (IssueCertificate sender now p e h))
                   (IssueCertificate sender now' p' e' h))
              = getTotalCertificates (transact s (IssueCertificate sender now p e h)))"
proof -
  let ?c = "IssueCertificate sender now p e h"
  have empty: "p = [] \<or> e = [] \<or> h = [] \<longrightarrow>
            issueCertificate sender now p e h s =
              Inl (Error (if p = [] then ''Participant name cannot be empty''
                          else if e = [] then ''Event name cannot be empty''
                          else ''Certificate hash cannot be empty''))"
    using assms(2) by (simp add: issueCertificate_def)
  have dup: "p \<noteq> [] \<and> e \<noteq> [] \<and> h \<noteq> [] \<and> hashToCertificateId s h \<noteq> 0 \<longrightarrow>
            issueCertificate sender now p e h s =
              Inl (Error ''Certificate with this hash already exists'')"
    using assms(2) by (simp add: issueCertificate_def)
  have present: "hashToCertificateId s h \<noteq> 0 \<longrightarrow>
            (\<exists>err. issueCertificate sender now p e h s = Inl err)"
    by (simp add: issueCertificate_def)
  have rollback: "(\<exists>err. issueCertificate sender now p e h s = Inl err) \<longrightarrow> transact s ?c = s"
    by (auto simp: transact_def)
  have twice: "(\<exists>r. issueCertificate sender now p e h s = Inr r) \<and> p' \<noteq> [] \<and> e' \<noteq> [] \<longrightarrow>
            issueCertificate sender now' p' e' h (transact s ?c)
              = Inl (Error ''Certificate with this hash already exists'') \<and>
            transact (transact s ?c) (IssueCertificate sender now' p' e' h) = transact s ?c \<and>
            getTotalCertificates (transact (transact s ?c) (IssueCertificate sender now' p' e' h))
              = getTotalCertificates (transact s ?c)"
  proof (intro impI, elim conjE exE)
    fix r
    assume ok: "issueCertificate sender now p e h s = Inr r" and ne: "p' \<noteq> []" "e' \<noteq> []"
    have "registry_inv s" unfolding assms(1) by (rule registry_inv_reachable)
    then have n0: "nextCertificateId s \<noteq> 0" by (simp add: registry_inv_def)
    from ok have h: "h \<noteq> []" and r: "r = (nextCertificateId s, snd r)"
      and idx: "hashToCertificateId (snd r) h = nextCertificateId s"
      and own: "owner (snd r) = owner s"
      by (auto simp: issueCertificate_Inr)
    from ok have t: "transact s ?c = snd r" by (cases r) (simp add: transact_def)
    have again: "issueCertificate sender now' p' e' h (snd r)
        = Inl (Error ''Certificate with this hash already exists'')"
      using assms(2) ne h idx n0 own by (simp add: issueCertificate_def)
    then have same: "transact (snd r) (IssueCertificate sender now' p' e' h) = snd r"
      by (simp add: transact_def)
    show "issueCertificate sender now' p' e' h (transact s ?c)
              = Inl (Error ''Certificate with this hash already exists'') \<and>
            transact (transact s ?c) (IssueCertificate sender now' p' e' h) = transact s ?c \<and>
            getTotalCertificates (transact (transact s ?c) (IssueCertificate sender now' p' e' h))
              = getTotalCertificates (transact s ?c)"
      unfolding t using again same by simp
  qed
  show ?thesis
    by (rule conjI [OF empty conjI [OF dup conjI [OF present conjI [OF rollback twice]]]])
qed

theorem C2_issue_failures_witness:
  "issueCertificate 0 6 [] ''Contest2024'' ''aaa111'' registry1
     = Inl (Error ''Participant name cannot be empty'') \<and>
   issueCertificate 0 6 ''Bob'' [] ''aaa111'' registry1
     = Inl (Error ''Event name cannot be empty'') \<and>
   issueCertificate 0 6 ''Bob'' ''Contest2024'' [] registry1
     = Inl (Error ''Certificate hash cannot be empty'') \<and>
   issueCertificate 0 6 ''Bob'' ''Contest2024'' ''aaa111'' registry1
     = Inl (Error ''Certificate with this hash already exists'') \<and>
   transact registry1 bob = registry1 \<and>
   issueCertificate 0 6 ''Bob'' ''Contest2024'' ''aaa111'' (transact (constructor 0) alice)
     = Inl (Error ''Certificate with this hash already exists'') \<and>
   transact (transact (constructor 0) alice) bob = transact (constructor 0) alice \<and>
   getTotalCertificates (transact (transact (constructor 0) alice) bob)
     = getTotalCertificates (transact (constructor 0) alice)"
proof -
  have o1: "0 = owner registry1" by (simp add: registry1_fields)
  have o0: "0 = owner (constructor 0)" "constructor 0 = run (constructor 0) []"
    by (simp_all add: constructor_def run_def)
  have present: "hashToCertificateId registry1 ''aaa111'' \<noteq> 0" by (simp add: registry1_fields)
  have first: "\<exists>r. issueCertificate 0 5 ''Alice'' ''Contest2024'' ''aaa111'' (constructor 0) = Inr r"
    by (simp add: issueCertificate_Inr constructor_def)
  from C2_issue_failures [OF registry_runs(1) o1, of "[]" "''Contest2024''" "''aaa111''" 6]
  have w1: "issueCertificate 0 6 [] ''Contest2024'' ''aaa111'' registry1
     = Inl (Error ''Participant name cannot be empty'')" by simp
  from C2_issue_failures [OF registry_runs(1) o1, of "''Bob''" "[]" "''aaa111''" 6]
  have w2: "issueCertificate 0 6 ''Bob'' [] ''aaa111'' registry1
     = Inl (Error ''Event name cannot be empty'')" by simp
  from C2_issue_failures [OF registry_runs(1) o1, of "''Bob''" "''Contest2024''" "[]" 6]
  have w3: "issueCertificate 0 6 ''Bob'' ''Contest2024'' [] registry1
     = Inl (Error ''Certificate hash cannot be empty'')" by simp
  from C2_issue_failures [OF registry_runs(1) o1, of "''Bob''" "''Contest2024''" "''aaa111''" 6] present
  have w4: "issueCertificate 0 6 ''Bob'' ''Contest2024'' ''aaa111'' registry1
     = Inl (Error ''Certificate with this hash already exists'')"
    and w5: "transact registry1 bob = registry1"
    by (simp_all add: bob_def)
  from C2_issue_failures [OF o0(2) o0(1), of "''Alice''" "''Contest2024''" "''aaa111''" 5 "''Bob''" "''Contest2024''" 6] first
  have w6: "issueCertificate 0 6 ''Bob'' ''Contest2024'' ''aaa111'' (transact (constructor 0) alice)
     = Inl (Error ''Certificate with this hash already exists'')"
    and w7: "transact (transact (constructor 0) alice) bob = transact (constructor 0) alice"
    and w8: "getTotalCertificates (transact (transact (constructor 0) alice) bob)
     = getTotalCertificates (transact (constructor 0) alice)"
    by (simp_all add: alice_def bob_def)
  from w1 w2 w3 w4 w5 w6 w7 w8 show ?thesis by (intro conjI)
qed

subsection \<open>C3: the access guard\<close>

text \<open>
  Claim C3. A caller whose address differs from \<open>owner\<close> (equality of addresses, nothing
  is normalised) has \<open>issueCertificate\<close> and \<open>revokeCertificate\<close> rejected with the
  message of \<^verbatim>\<open>onlyOwner\<close>, and the storage after either transaction is the storage
  before it: \<open>certificates\<close>, \<open>hashToCertificateId\<close>, \<open>nextCertificateId\<close> and every
  \<open>isValid\<close> are unchanged.
\<close>

theorem C3_unauthorized_rejected:
  assumes "sender \<noteq> owner s"
  shows "issueCertificate sender now p e h s = Inl (Error ''Only owner can call this function'') \<and>
         revokeCertificate sender i s = Inl (Error ''Only owner can call this function'') \<and>
         transact s (IssueCertificate sender now p e h) = s \<and>
         transact s (RevokeCertificate sender i) = s"
  using assms by (simp add: issueCertificate_def revokeCertificate_def transact_def)

theorem C3_unauthorized_rejected_witness:
  "(1 :: address) \<noteq> owner (constructor 0) \<and>
   issueCertificate 1 0 ''Alice'' ''Contest2024'' ''aaa111'' (constructor 0) =
     Inl (Error ''Only owner can call this function'') \<and>
   revokeCertificate 1 1 (constructor 0) = Inl (Error ''Only owner can call this function'') \<and>
   transact (constructor 0) (IssueCertificate 1 0 ''Alice'' ''Contest2024'' ''aaa111'') = constructor 0 \<and>
   transact (constructor 0) (RevokeCertificate 1 1) = constructor 0"
proof -
  have ne: "(1 :: address) \<noteq> owner (constructor 0)" by (simp add: constructor_def)
  from C3_unauthorized_rejected [OF ne] ne show ?thesis by simp
qed

subsection \<open>C4: revocation\<close>

text \<open>
  Claim C4. Called by the owner, \<open>revokeCertificate\<close> fails with "Invalid certificate ID"
  when the id is outside \<open>1 \<le> id < nextCertificateId\<close>, fails with "Certificate is
  already revoked" when the record's \<open>isValid\<close> is already false and leaves it false, and
  otherwise succeeds and sets \<open>isValid\<close> to false. After a successful revocation every
  further revocation of the same id fails, whoever calls it and whatever transactions
  come in between, and \<open>isValid\<close> stays false for ever.
\<close>

theorem C4_revoke:
  assumes "sender = owner s"
  shows "(\<not> (1 \<le> i \<and> i < nextCertificateId s) \<longrightarrow>
            revokeCertificate sender i s = Inl (Error ''Invalid certificate ID'')) \<and>
         (1 \<le> i \<and> i < nextCertificateId s \<and> \<not> isValid (certificates s i) \<longrightarrow>
            revokeCertificate sender i s = Inl (Error ''Certificate is already revoked'') \<and>
            \<not> isValid (certificates (transact s (RevokeCertificate sender i)) i)) \<and>
         (1 \<le> i \<and> i < nextCertificateId s \<and> isValid (certificates s i) \<longrightarrow>
            (\<exists>s'. revokeCertificate sender i s = Inr s' \<and>
                  transact s (RevokeCertificate sender i) = s' \<and>
                  \<not> isValid (certificates s' i) \<and>
                  revokeCertificate sender i s' = Inl (Error ''Certificate is already revoked'') \<and>
                  (\<forall>cs. \<not> isValid (certificates (run s' cs) i) \<and>
                        revokeCertificate sender i (run s' cs)
                          = Inl (Error ''Certificate is already revoked'') \<and>
                        (\<forall>a. \<exists>err. revokeCertificate a i (run s' cs) = Inl err))))"
proof -
  have p1: "\<not> (1 \<le> i \<and> i < nextCertificateId s) \<longrightarrow>
            revokeCertificate sender i s = Inl (Error ''Invalid certificate ID'')"
    using assms by (simp add: revokeCertificate_def word_one_le')
  have p2: "1 \<le> i \<and> i < nextCertificateId s \<and> \<not> isValid (certificates s i) \<longrightarrow>
            revokeCertificate sender i s = Inl (Error ''Certificate is already revoked'') \<and>
            \<not> isValid (certificates (transact s (RevokeCertificate sender i)) i)"
    using assms by (simp add: revokeCertificate_def word_one_le' transact_def)
  have later: "\<not> isValid (certificates (run s' cs) i) \<and>
       revokeCertificate (owner s') i (run s' cs) = Inl (Error ''Certificate is already revoked'') \<and>
       (\<forall>a. \<exists>err. revokeCertificate a i (run s' cs) = Inl err)"
    if "1 \<le> i" "i < nextCertificateId s'" "\<not> isValid (certificates s' i)" for s' cs
  proof -
    from record_kept_run [OF that(2), of cs] that(3)
    have "i < nextCertificateId (run s' cs)" "\<not> isValid (certificates (run s' cs) i)"
      by simp_all
    with that(1) show ?thesis
      by (simp add: revokeCertificate_def word_one_le' run_owner)
  qed
  have p3: "1 \<le> i \<and> i < nextCertificateId s \<and> isValid (certificates s i) \<longrightarrow>
          (\<exists>s'. revokeCertificate sender i s = Inr s' \<and>
                  transact s (RevokeCertificate sender i) = s' \<and>
                  \<not> isValid (certificates s' i) \<and>
                  revokeCertificate sender i s' = Inl (Error ''Certificate is already revoked'') \<and>
                  (\<forall>cs. \<not> isValid (certificates (run s' cs) i) \<and>
                        revokeCertificate sender i (run s' cs)
                          = Inl (Error ''Certificate is already revoked'') \<and>
                        (\<forall>a. \<exists>err. revokeCertificate a i (run s' cs) = Inl err)))"
  proof (intro impI, elim conjE)
    assume h: "1 \<le> i" "i < nextCertificateId s" "isValid (certificates s i)"
    let ?s' = "s\<lparr>certificates := (certificates s)(i := (certificates s i)\<lparr>isValid := False\<rparr>)\<rparr>"
    have r: "revokeCertificate sender i s = Inr ?s'"
      using assms h by (simp add: revokeCertificate_def word_one_le')
    have own: "owner ?s' = sender" using assms by simp
    have "\<not> isValid (certificates ?s' i)" "i < nextCertificateId ?s'"
      using h by simp_all
    with h(1) have l: "\<not> isValid (certificates (run ?s' cs) i) \<and>
       revokeCertificate sender i (run ?s' cs) = Inl (Error ''Certificate is already revoked'') \<and>
       (\<forall>a. \<exists>err. revokeCertificate a i (run ?s' cs) = Inl err)" for cs
      using later [of ?s' cs] own by simp
    from l [of "[]"] have again:
      "revokeCertificate sender i ?s' = Inl (Error ''Certificate is already revoked'')"
      by (simp add: run_Nil)
    have t: "transact s (RevokeCertificate sender i) = ?s'"
      by (simp add: transact_def r)
    have nv: "\<not> isValid (certificates ?s' i)" by simp
    from l have l': "\<forall>cs. \<not> isValid (certificates (run ?s' cs) i) \<and>
       revokeCertificate sender i (run ?s' cs) = Inl (Error ''Certificate is already revoked'') \<and>
       (\<forall>a. \<exists>err. revokeCertificate a i (run ?s' cs) = Inl err)" ..
    show "\<exists>s'. revokeCertificate sender i s = Inr s' \<and>
                  transact s (RevokeCertificate sender i) = s' \<and>
                  \<not> isValid (certificates s' i) \<and>
                  revokeCertificate sender i s' = Inl (Error ''Certificate is already revoked'') \<and>
                  (\<forall>cs. \<not> isValid (certificates (run s' cs) i) \<and>
                        revokeCertificate sender i (run s' cs)
                          = Inl (Error ''Certificate is already revoked'') \<and>
                        (\<forall>a. \<exists>err. revokeCertificate a i (run s' cs) = Inl err))"
      by (rule exI [of _ ?s'], intro conjI) (rule r t nv again l')+
  qed
  show ?thesis by (rule conjI [OF p1 conjI [OF p2 p3]])
qed

theorem C4_revoke_witness:
  "0 = owner registry1 \<and>
   revokeCertificate 0 5 registry1 = Inl (Error ''Invalid certificate ID'') \<and>
   revokeCertificate 0 0 registry1 = Inl (Error ''Invalid certificate ID'') \<and>
   revokeCertificate 0 1 registry2 = Inl (Error ''Certificate is already revoked'') \<and>
   (\<exists>s'. revokeCertificate 0 1 registry1 = Inr s' \<and> \<not> isValid (certificates s' 1) \<and>
      revokeCertificate 0 1 s' = Inl (Error ''Certificate is already revoked'') \<and>
      (\<forall>cs. \<not> isValid (certificates (run s' cs) 1)))"
proof -
  have own: "0 = owner registry1" "0 = owner registry2"
    by (simp_all add: registry1_fields registry2_fields)
  have a: "\<not> (1 \<le> (5 :: uint256) \<and> 5 < nextCertificateId registry1)"
    and z: "\<not> (1 \<le> (0 :: uint256) \<and> 0 < nextCertificateId registry1)"
    and b: "1 \<le> (1 :: uint256) \<and> 1 < nextCertificateId registry2 \<and> \<not> isValid (certificates registry2 1)"
    and c: "1 \<le> (1 :: uint256) \<and> 1 < nextCertificateId registry1 \<and> isValid (certificates registry1 1)"
    by (simp_all add: registry1_fields registry2_fields)
  from C4_revoke [OF own(1), of 5] a
  have w1: "revokeCertificate 0 5 registry1 = Inl (Error ''Invalid certificate ID'')" by simp
  from C4_revoke [OF own(1), of 0] z
  have w2: "revokeCertificate 0 0 registry1 = Inl (Error ''Invalid certificate ID'')" by simp
  from C4_revoke [OF own(2), of 1] b
  have w3: "revokeCertificate 0 1 registry2 = Inl (Error ''Certificate is already revoked'')" by simp
  from C4_revoke [OF own(1), of 1] c
  have w4: "\<exists>s'. revokeCertificate 0 1 registry1 = Inr s' \<and> \<not> isValid (certificates s' 1) \<and>
      revokeCertificate 0 1 s' = Inl (Error ''Certificate is already revoked'') \<and>
      (\<forall>cs. \<not> isValid (certificates (run s' cs) 1))" by simp
  from own(1) w1 w2 w3 w4 show ?thesis by (intro conjI)
qed

subsection \<open>C5: lookup by id\<close>

text \<open>
  Claim C5. \<open>verifyCertificateById\<close> always returns and never reverts. It returns the
  stored record, with \<open>exists = true\<close>, exactly when \<open>1 \<le> i < nextCertificateId\<close>, and
  the not-found tuple for every other id, 0 and the ids from \<open>nextCertificateId\<close> on
  included. In a state reached from deployment the not-found ids are exactly the ids
  that no successful issuance has returned.
\<close>

theorem C5_lookup_by_id_total:
  "verifyCertificateById i s =
     (if 1 \<le> i \<and> i < nextCertificateId s
      then Inr (True, participantName (certificates s i), eventName (certificates s i),
                certificateHash (certificates s i), timestamp (certificates s i),
                isValid (certificates s i))
      else Inr (False, [], [], [], 0, False)) \<and>
   (verifyCertificateById i (run (constructor d) cs) = Inr (False, [], [], [], 0, False))
     = (i \<notin> fst ` set (issued (constructor d) cs))"
proof -
  have range: "(i = 0 \<or> nextCertificateId s \<le> i) = (\<not> (1 \<le> i \<and> i < nextCertificateId s))"
    for s :: contract_state
    by (auto simp: word_one_le)
  have "nextCertificateId (constructor d) = 1" by (simp add: constructor_def)
  then have "(i \<in> fst ` set (issued (constructor d) cs)) =
      (1 \<le> i \<and> i < nextCertificateId (run (constructor d) cs))"
    by (simp add: issued_ids_set)
  then show ?thesis
    by (simp add: verifyCertificateById_def range Let_def)
qed

theorem C5_lookup_by_id_total_witness:
  "verifyCertificateById 1 registry1
     = Inr (True, ''Alice'', ''Contest2024'', ''aaa111'', 5, True) \<and>
   verifyCertificateById 0 registry1 = Inr (False, [], [], [], 0, False) \<and>
   verifyCertificateById 2 registry1 = Inr (False, [], [], [], 0, False) \<and>
   (2 :: uint256) \<notin> fst ` set (issued (constructor 0) [alice])"
proof -
  from C5_lookup_by_id_total [of 1 registry1 0 "[]"]
  have w1: "verifyCertificateById 1 registry1
     = Inr (True, ''Alice'', ''Contest2024'', ''aaa111'', 5, True)"
    by (simp add: registry1_fields)
  from C5_lookup_by_id_total [of 0 registry1 0 "[]"]
  have w2: "verifyCertificateById 0 registry1 = Inr (False, [], [], [], 0, False)"
    by simp
  note f = C5_lookup_by_id_total [of 2 registry1 0 "[alice]", folded registry_runs(1)]
  from f have w3: "verifyCertificateById 2 registry1 = Inr (False, [], [], [], 0, False)"
    by (simp add: registry1_fields)
  from f w3 have w4: "(2 :: uint256) \<notin> fst ` set (issued (constructor 0) [alice])"
    by blast
  from w1 w2 w3 w4 show ?thesis by (intro conjI)
qed

subsection \<open>C6: the outcomes of a verification\<close>

text \<open>
  Claim C6, amended. For every hash, \<open>verifyCertificateByHash\<close> returns and never
  reverts, with one of three results: not found when the hash is absent from
  \<open>hashToCertificateId\<close>, known but revoked when it is present and the record's \<open>isValid\<close>
  is false, valid when it is present and \<open>isValid\<close> is true. The verification handler
  answers not found for an absent hash. For a present hash it answers with the
  contract's outcome, revoked or valid, when the service can convert the record, that
  is when name and event are well-formed UTF-8 and the timestamp is within the range of
  a JavaScript date; otherwise it answers with a failure, status 500. The four answers
  are pairwise different and there is no fifth.
\<close>

theorem C6_verification_outcomes:
  "verifyCertificateByHash h s =
     (if hashToCertificateId s h = 0 then Inr (False, 0, [], [], 0, False)
      else Inr (True, hashToCertificateId s h,
                participantName (certificates s (hashToCertificateId s h)),
                eventName (certificates s (hashToCertificateId s h)),
                timestamp (certificates s (hashToCertificateId s h)),
                isValid (certificates s (hashToCertificateId s h)))) \<and>
   verify_by_hash_response h s =
     (if hashToCertificateId s h = 0 then Verify_Ok False ''Certificate not found''
      else if toUtf8String_ok (participantName (certificates s (hashToCertificateId s h)))
            \<and> toUtf8String_ok (eventName (certificates s (hashToCertificateId s h)))
            \<and> toISOString_ok (timestamp (certificates s (hashToCertificateId s h)))
        then (if isValid (certificates s (hashToCertificateId s h))
              then Verify_Ok True ''Certificate is valid and verified''
              else Verify_Ok True ''Certificate exists but has been revoked'')
      else Verify_Failed) \<and>
   distinct [Verify_Ok False ''Certificate not found'',
             Verify_Ok True ''Certificate exists but has been revoked'',
             Verify_Ok True ''Certificate is valid and verified'',
             Verify_Failed]"
proof -
  have view: "verifyCertificateByHash h s =
     (if hashToCertificateId s h = 0 then Inr (False, 0, [], [], 0, False)
      else Inr (True, hashToCertificateId s h,
                participantName (certificates s (hashToCertificateId s h)),
                eventName (certificates s (hashToCertificateId s h)),
                timestamp (certificates s (hashToCertificateId s h)),
                isValid (certificates s (hashToCertificateId s h))))"
    by (simp add: verifyCertificateByHash_def Let_def)
  have answer: "verify_by_hash_response h s =
     (if hashToCertificateId s h = 0 then Verify_Ok False ''Certificate not found''
      else if toUtf8String_ok (participantName (certificates s (hashToCertificateId s h)))
            \<and> toUtf8String_ok (eventName (certificates s (hashToCertificateId s h)))
            \<and> toISOString_ok (timestamp (certificates s (hashToCertificateId s h)))
        then (if isValid (certificates s (hashToCertificateId s h))
              then Verify_Ok True ''Certificate is valid and verified''
              else Verify_Ok True ''Certificate exists but has been revoked'')
      else Verify_Failed)"
    by (simp add: verify_by_hash_response_def service_verifyCertificateByHash_def view
        verify_message_def toUtf8String_ok_examples(1))
  have four: "distinct [Verify_Ok False ''Certificate not found'',
             Verify_Ok True ''Certificate exists but has been revoked'',
             Verify_Ok True ''Certificate is valid and verified'',
             Verify_Failed]"
    by simp
  show ?thesis by (rule conjI [OF view conjI [OF answer four]])
qed

theorem C6_verification_outcomes_witness:
  "verify_by_hash_response ''zzz999'' registry1 = Verify_Ok False ''Certificate not found'' \<and>
   verify_by_hash_response ''aaa111'' registry1
     = Verify_Ok True ''Certificate is valid and verified'' \<and>
   verify_by_hash_response ''aaa111'' registry2
     = Verify_Ok True ''Certificate exists but has been revoked''"
proof -
  from C6_verification_outcomes [of "''zzz999''" registry1]
  have w1: "verify_by_hash_response ''zzz999'' registry1 = Verify_Ok False ''Certificate not found''"
    by (simp add: registry1_eq)
  from C6_verification_outcomes [of "''aaa111''" registry1]
  have w2: "verify_by_hash_response ''aaa111'' registry1
     = Verify_Ok True ''Certificate is valid and verified''"
    by (simp add: registry1_fields toUtf8String_ok_examples toISOString_ok_examples)
  from C6_verification_outcomes [of "''aaa111''" registry2]
  have w3: "verify_by_hash_response ''aaa111'' registry2
     = Verify_Ok True ''Certificate exists but has been revoked''"
    by (simp add: registry2_fields toUtf8String_ok_examples toISOString_ok_examples)
  from w1 w2 w3 show ?thesis by (intro conjI)
qed

text \<open>
  As first stated, with the three outcomes as the only ones, the statement fails. The
  owner issues a certificate whose participant name is the byte \<^verbatim>\<open>0xff\<close>: its hash is
  in the index and the record is valid, but the service throws while reading the name
  and the handler answers with status 500. So it does for a certificate issued in a
  block whose timestamp is beyond the range of a JavaScript date.
\<close>

theorem C6_unconvertible_record_counterexample:
  "hashToCertificateId (run (constructor 0) [undecodable]) ''bad000'' \<noteq> 0 \<and>
   isValid (certificates (run (constructor 0) [undecodable])
              (hashToCertificateId (run (constructor 0) [undecodable]) ''bad000'')) \<and>
   verify_by_hash_response ''bad000'' (run (constructor 0) [undecodable]) = Verify_Failed \<and>
   hashToCertificateId (run (constructor 0) [far_future]) ''far000'' \<noteq> 0 \<and>
   isValid (certificates (run (constructor 0) [far_future])
              (hashToCertificateId (run (constructor 0) [far_future]) ''far000'')) \<and>
   verify_by_hash_response ''far000'' (run (constructor 0) [far_future]) = Verify_Failed"
  by (simp add: verify_by_hash_response_def service_verifyCertificateByHash_def
      verifyCertificateByHash_def undecodable_run far_future_run
      toUtf8String_ok_examples toISOString_ok_examples)

subsection \<open>C7: the total\<close>

text \<open>
  Claim C7. In every state reached from deployment \<open>getTotalCertificates\<close> returns
  \<open>nextCertificateId - 1\<close> without reverting, this number is the number of successful
  issuances among the transactions performed so far, and a revocation, successful or
  not, does not change it.
\<close>

theorem C7_total_counts_issuances:
  assumes "s = run (constructor d) cs"
  shows "getTotalCertificates s = Inr (nextCertificateId s - 1) \<and>
         unat (nextCertificateId s - 1) = length (issued (constructor d) cs) \<and>
         getTotalCertificates (transact s (RevokeCertificate a i)) = getTotalCertificates s"
proof -
  have "registry_inv s" unfolding assms by (rule registry_inv_reachable)
  then have n0: "nextCertificateId s \<noteq> 0" by (simp add: registry_inv_def)
  have "unat (nextCertificateId s) = Suc (length (issued (constructor d) cs))"
    unfolding assms by (simp add: unat_nextCertificateId_run constructor_def)
  with n0 show ?thesis
    by (simp add: getTotalCertificates_def checked_sub_1 unat_minus_1 nextCertificateId_revoke)
qed

theorem C7_total_counts_issuances_witness:
  "registry2 = run (constructor 0) [alice, RevokeCertificate 0 1] \<and>
   getTotalCertificates registry2 = Inr 1 \<and>
   length (issued (constructor 0) [alice, RevokeCertificate 0 1]) = 1 \<and>
   getTotalCertificates (transact registry2 (RevokeCertificate 0 1)) = Inr 1"
proof -
  have r: "registry2 = run (constructor 0) [alice, RevokeCertificate 0 1]"
    by (simp add: registry2_def)
  from C7_total_counts_issuances [OF r, of 0 1] r show ?thesis
    by (simp add: registry2_fields issued_alice)
qed

subsection \<open>C8: allocation of ids\<close>

text \<open>
  Claim C8. \<open>nextCertificateId\<close> is 1 after deployment. Every transaction adds to it the
  number of certificates it issued, which is 1 for a successful issuance and 0 for
  every other transaction, a revocation in particular. So the ids returned by the
  successful issuances are 1, 2, 3, ... in order, \<open>nextCertificateId\<close> is one more than
  their number and exceeds each of them, none of them is 0, and no id is returned twice,
  revocations or not.
\<close>

theorem C8_ids_sequential:
  assumes "s = run (constructor d) cs"
  shows "nextCertificateId (constructor d) = 1 \<and>
         map (unat \<circ> fst) (issued (constructor d) cs) =
           [1 ..< Suc (length (issued (constructor d) cs))] \<and>
         unat (nextCertificateId s) = Suc (length (issued (constructor d) cs)) \<and>
         (\<forall>i \<in> fst ` set (issued (constructor d) cs). 0 < i \<and> i < nextCertificateId s) \<and>
         distinct (map fst (issued (constructor d) cs)) \<and>
         unat (nextCertificateId (transact s c)) = unat (nextCertificateId s) + length (issued_by s c) \<and>
         length (issued_by s c) \<le> 1 \<and>
         nextCertificateId (transact s (RevokeCertificate a j)) = nextCertificateId s"
proof -
  have one: "nextCertificateId (constructor d) = 1" by (simp add: constructor_def)
  have seq: "map (unat \<circ> fst) (issued (constructor d) cs) =
           [1 ..< Suc (length (issued (constructor d) cs))]"
    using issued_ids_sequential [of "constructor d" cs] by (simp add: one)
  have cnt: "unat (nextCertificateId s) = Suc (length (issued (constructor d) cs))"
    unfolding assms by (simp add: unat_nextCertificateId_run one)
  have rng: "\<forall>i \<in> fst ` set (issued (constructor d) cs). 0 < i \<and> i < nextCertificateId s"
    unfolding assms by (simp add: issued_ids_set one word_one_le')
  have le1: "length (issued_by s c) \<le> 1"
    using transact_cases [of s c] by auto
  from one seq cnt rng le1 show ?thesis
    by (simp add: issued_ids_distinct unat_nextCertificateId_transact nextCertificateId_revoke)
qed

theorem C8_ids_sequential_witness:
  "map (unat \<circ> fst) (issued (constructor 0) [alice, RevokeCertificate 0 1, carol]) = [1, 2] \<and>
   unat (nextCertificateId (run (constructor 0) [alice, RevokeCertificate 0 1, carol])) = 3 \<and>
   map fst (issued (constructor 0) [alice, RevokeCertificate 0 1, carol]) = [1, 2] \<and>
   (1 :: uint256) < nextCertificateId (run (constructor 0) [alice, RevokeCertificate 0 1, carol]) \<and>
   (2 :: uint256) < nextCertificateId (run (constructor 0) [alice, RevokeCertificate 0 1, carol]) \<and>
   distinct (map fst (issued (constructor 0) [alice, RevokeCertificate 0 1, carol]))"
  using C8_ids_sequential [OF refl, of 0 "[alice, RevokeCertificate 0 1, carol]" carol 0 1]
  unfolding scenario3 by (simp add: upt_rec)

subsection \<open>C9: validity only decreases\<close>

text \<open>
  Claim C9. A record is created with \<open>isValid = true\<close>. For a record that exists
  (\<open>1 \<le> j < nextCertificateId\<close>) and any sequence of transactions: the record still
  exists afterwards with the same name, event, hash and timestamp, so it is never
  deleted; if \<open>isValid\<close> was false it is still false; and at most one transaction of the
  sequence changes \<open>isValid\<close>. A transaction that takes \<open>isValid\<close> from true to false
  is a successful \<open>revokeCertificate\<close> of that id by the owner.
\<close>

theorem C9_isValid_monotone:
  "(issueCertificate a t p e h s = Inr (i, s') \<longrightarrow> isValid (certificates s' i)) \<and>
   (1 \<le> j \<and> j < nextCertificateId s \<longrightarrow>
      1 \<le> j \<and> j < nextCertificateId (run s cs) \<and>
      participantName (certificates (run s cs) j) = participantName (certificates s j) \<and>
      eventName (certificates (run s cs) j) = eventName (certificates s j) \<and>
      certificateHash (certificates (run s cs) j) = certificateHash (certificates s j) \<and>
      timestamp (certificates (run s cs) j) = timestamp (certificates s j) \<and>
      (\<not> isValid (certificates s j) \<longrightarrow> \<not> isValid (certificates (run s cs) j)) \<and>
      flips j s cs \<le> 1) \<and>
   (isValid (certificates s j) \<and> \<not> isValid (certificates (transact s c) j) \<longrightarrow>
      c = RevokeCertificate (owner s) j \<and> revokeCertificate (owner s) j s = Inr (transact s c))"
proof -
  have created: "issueCertificate a t p e h s = Inr (i, s') \<longrightarrow> isValid (certificates s' i)"
    by (auto simp: issueCertificate_Inr)
  have kept: "j < nextCertificateId s \<longrightarrow>
      j < nextCertificateId (run s cs) \<and>
      participantName (certificates (run s cs) j) = participantName (certificates s j) \<and>
      eventName (certificates (run s cs) j) = eventName (certificates s j) \<and>
      certificateHash (certificates (run s cs) j) = certificateHash (certificates s j) \<and>
      timestamp (certificates (run s cs) j) = timestamp (certificates s j) \<and>
      (\<not> isValid (certificates s j) \<longrightarrow> \<not> isValid (certificates (run s cs) j)) \<and>
      flips j s cs \<le> 1"
    using record_kept_run [of j s cs] by (auto simp: flips_run)
  have only: "isValid (certificates s j) \<and> \<not> isValid (certificates (transact s c) j) \<longrightarrow>
      c = RevokeCertificate (owner s) j \<and> revokeCertificate (owner s) j s = Inr (transact s c)"
    using isValid_cleared_only_by_revoke [of s j c] by simp
  have kept': "1 \<le> j \<and> j < nextCertificateId s \<longrightarrow>
      1 \<le> j \<and> j < nextCertificateId (run s cs) \<and>
      participantName (certificates (run s cs) j) = participantName (certificates s j) \<and>
      eventName (certificates (run s cs) j) = eventName (certificates s j) \<and>
      certificateHash (certificates (run s cs) j) = certificateHash (certificates s j) \<and>
      timestamp (certificates (run s cs) j) = timestamp (certificates s j) \<and>
      (\<not> isValid (certificates s j) \<longrightarrow> \<not> isValid (certificates (run s cs) j)) \<and>
      flips j s cs \<le> 1"
    using kept by simp
  show ?thesis by (rule conjI [OF created conjI [OF kept' only]])
qed

theorem C9_isValid_monotone_witness:
  "isValid (certificates (transact (constructor 0) alice) 1) \<and>
   \<not> isValid (certificates (run registry2 [carol]) 1) \<and>
   participantName (certificates (run registry2 [carol]) 1) = ''Alice'' \<and>
   flips 1 registry1 [RevokeCertificate 0 1, carol] \<le> 1 \<and>
   isValid (certificates registry1 1) \<and>
   \<not> isValid (certificates (transact registry1 (RevokeCertificate 0 1)) 1)"
proof -
  have t: "transact (constructor 0) alice = registry1" "transact registry1 (RevokeCertificate 0 1) = registry2"
    by (simp_all add: registry1_def registry2_def run_def)
  have i: "issueCertificate 0 5 ''Alice'' ''Contest2024'' ''aaa111'' (constructor 0) = Inr (1, registry1)"
    by (simp add: registry1_eq issueCertificate_def checked_add_1 constructor_def Let_def)
  have r: "1 \<le> (1 :: uint256) \<and> 1 < nextCertificateId registry2"
    "1 \<le> (1 :: uint256) \<and> 1 < nextCertificateId registry1"
    by (simp_all add: registry1_fields registry2_fields)
  have v: "\<not> isValid (certificates registry2 1)" "isValid (certificates registry1 1)"
    "participantName (certificates registry2 1) = ''Alice''"
    by (simp_all add: registry1_fields registry2_fields)
  from C9_isValid_monotone [of 0 5 "''Alice''" "''Contest2024''" "''aaa111''" "constructor 0" 1 registry1] i
  have w1: "isValid (certificates (transact (constructor 0) alice) 1)" by (simp add: t)
  from C9_isValid_monotone [of 0 0 "[]" "[]" "[]" registry2 0 registry2 1 "[carol]"] r(1) v(1,3)
  have w2: "\<not> isValid (certificates (run registry2 [carol]) 1)"
    "participantName (certificates (run registry2 [carol]) 1) = ''Alice''" by simp_all
  from C9_isValid_monotone [of 0 0 "[]" "[]" "[]" registry1 0 registry1 1 "[RevokeCertificate 0 1, carol]"] r(2)
  have w3: "flips 1 registry1 [RevokeCertificate 0 1, carol] \<le> 1" by simp
  from w1 w2 w3 v(1,2) show ?thesis by (simp add: t)
qed

subsection \<open>C10: revocation does not free the hash\<close>

text \<open>
  Claim C10. After a successful revocation of record \<open>i\<close>, whose hash is \<open>h\<close>, the index
  still maps \<open>h\<close> to \<open>i\<close>, after any further transactions too, because
  \<open>revokeCertificate\<close> never writes \<open>hashToCertificateId\<close>. So every later issuance with
  \<open>h\<close> fails, and an issuance by the owner with non-empty name and event fails with
  "Certificate with this hash already exists". Over the whole life of the registry no
  hash is registered by two successful issuances.
\<close>

theorem C10_revoked_hash_stays_registered:
  assumes "s = run (constructor d) cs" and "revokeCertificate a i s = Inr s'"
  shows "i \<noteq> 0 \<and>
         hashToCertificateId (run s' cs') (certificateHash (certificates s i)) = i \<and>
         (\<exists>err. issueCertificate b t p e (certificateHash (certificates s i)) (run s' cs') = Inl err) \<and>
         (b = owner s \<and> p \<noteq> [] \<and> e \<noteq> [] \<longrightarrow>
            issueCertificate b t p e (certificateHash (certificates s i)) (run s' cs')
              = Inl (Error ''Certificate with this hash already exists'')) \<and>
         distinct (map snd (issued (constructor d) cs''))"
proof -
  let ?h = "certificateHash (certificates s i)"
  have inv: "registry_inv s" unfolding assms(1) by (rule registry_inv_reachable)
  from assms(2) have rng: "0 < i" "i < nextCertificateId s"
    and s': "s' = s\<lparr>certificates := (certificates s)(i := (certificates s i)\<lparr>isValid := False\<rparr>)\<rparr>"
    by (simp_all add: revokeCertificate_Inr)
  from rng(1) have i0: "i \<noteq> 0" by auto
  from inv rng have "hashToCertificateId s ?h = i" by (simp add: registry_inv_def)
  then have "hashToCertificateId s' ?h = i" by (simp add: s')
  with i0 have idx: "hashToCertificateId (run s' cs') ?h = i"
    using hash_index_kept_run [of s' ?h cs'] by simp
  have own: "owner (run s' cs') = owner s" by (simp add: run_owner s')
  from inv have "hashToCertificateId s [] = 0" by (simp add: registry_inv_def)
  with \<open>hashToCertificateId s ?h = i\<close> i0 have ne: "?h \<noteq> []" by auto
  have dup: "b = owner s \<and> p \<noteq> [] \<and> e \<noteq> [] \<longrightarrow>
            issueCertificate b t p e ?h (run s' cs')
              = Inl (Error ''Certificate with this hash already exists'')"
    using idx i0 ne own by (simp add: issueCertificate_def)
  have fails: "\<exists>err. issueCertificate b t p e ?h (run s' cs') = Inl err"
  proof (cases "issueCertificate b t p e ?h (run s' cs')")
    case (Inl err)
    then show ?thesis by blast
  next
    case (Inr r)
    then have "hashToCertificateId (run s' cs') ?h = 0" by (simp add: issueCertificate_Inr)
    with idx i0 show ?thesis by simp
  qed
  have "registry_inv (constructor d)" by (rule registry_inv_constructor)
  then have dist: "distinct (map snd (issued (constructor d) cs''))"
    using issued_hashes_fresh [of "constructor d" cs''] by blast
  show ?thesis by (intro conjI) (rule i0 idx fails dup dist)+
qed

theorem C10_revoked_hash_stays_registered_witness:
  "registry1 = run (constructor 0) [alice] \<and>
   revokeCertificate 0 1 registry1 = Inr registry2 \<and>
   certificateHash (certificates registry1 1) = ''aaa111'' \<and>
   hashToCertificateId (run registry2 [carol]) ''aaa111'' = 1 \<and>
   issueCertificate 0 6 ''Bob'' ''Contest2024'' ''aaa111'' (run registry2 [carol])
     = Inl (Error ''Certificate with this hash already exists'') \<and>
   distinct (map snd (issued (constructor 0) [alice, RevokeCertificate 0 1, bob, carol]))"
proof -
  have r: "revokeCertificate 0 1 registry1 = Inr registry2"
    by (simp add: registry1_eq registry2_eq revokeCertificate_def)
  have h: "certificateHash (certificates registry1 1) = ''aaa111''" "0 = owner registry1"
    by (simp_all add: registry1_fields)
  from C10_revoked_hash_stays_registered [OF registry_runs(1) r, of "[carol]" 0 6 "''Bob''" "''Contest2024''"
              "[alice, RevokeCertificate 0 1, bob, carol]"] h
  have "hashToCertificateId (run registry2 [carol]) ''aaa111'' = 1"
    "issueCertificate 0 6 ''Bob'' ''Contest2024'' ''aaa111'' (run registry2 [carol])
     = Inl (Error ''Certificate with this hash already exists'')"
    "distinct (map snd (issued (constructor 0) [alice, RevokeCertificate 0 1, bob, carol]))"
    by simp_all
  with registry_runs(1) r h(1) show ?thesis by (intro conjI)
qed

end
